theory Spec2Isabelle
  imports Complex_Main
begin

section \<open>Road-network download script: exceptions and graphs\<close>

text \<open>
  The script \<^verbatim>\<open>Step_1_save_road_network_geometry.py\<close> is modelled as a
  state-passing program. Python exceptions are values: every function that can raise
  returns \<open>py_exception + 'a\<close>, with \<open>Inl\<close> the raised exception. Only
  instances of \<^verbatim>\<open>Exception\<close> are modelled (the ones
  \<^verbatim>\<open>except Exception\<close> catches); each constructor carries the text that
  \<^verbatim>\<open>str(e)\<close> returns.
\<close>

datatype py_exception =
    ValueError string
  | KeyError string
  | AttributeError string
  | EmptyDataError string
  | LibraryError string

fun str_exception :: "py_exception \<Rightarrow> string" where
  "str_exception (ValueError m) = m"
| "str_exception (KeyError m) = m"
| "str_exception (AttributeError m) = m"
| "str_exception (EmptyDataError m) = m"
| "str_exception (LibraryError m) = m"

subsection \<open>The builtin \<^verbatim>\<open>max(xs, key=f)\<close>\<close>

text \<open>
  Python's \<^verbatim>\<open>max\<close> raises \<^verbatim>\<open>ValueError\<close> on an empty
  sequence and otherwise returns the first element whose key is maximal: a later
  element replaces the current best only when its key is strictly greater.
\<close>

definition py_max :: "('a \<Rightarrow> 'k::linorder) \<Rightarrow> 'a list \<Rightarrow> py_exception + 'a" where
  "py_max key xs =
     (case xs of
        [] \<Rightarrow> Inl (ValueError ''max() arg is an empty sequence'')
      | x # rest \<Rightarrow> Inr (fold (\<lambda>y best. if key best < key y then y else best) rest x))"

subsection \<open>Undirected multigraphs\<close>

text \<open>
  A networkx graph keeps its nodes in insertion order and, for a multigraph, every
  parallel edge: \<open>nodes\<close> is the list of node identifiers, \<open>edges\<close> the list
  of edges as pairs of end points (attributes are not modelled).
  \<^verbatim>\<open>len(G.nodes)\<close> and \<^verbatim>\<open>len(G.edges)\<close> are the lengths of the
  two lists. The library keeps every end point of an edge among the nodes, and the nodes
  distinct (they are dictionary keys): \<open>wf_graph\<close>.
\<close>

record 'n graph =
  nodes :: "'n list"
  edges :: "('n \<times> 'n) list"

definition wf_graph :: "'n graph \<Rightarrow> bool" where
  "wf_graph G \<longleftrightarrow>
     distinct (nodes G) \<and>
     list_all (\<lambda>(u, v). u \<in> set (nodes G) \<and> v \<in> set (nodes G)) (edges G)"

text \<open>\<^verbatim>\<open>G.adj[v]\<close>: the neighbours of \<open>v\<close>, over every edge that touches it.\<close>

definition adj :: "'n graph \<Rightarrow> 'n \<Rightarrow> 'n list" where
  "adj G v =
     concat (map (\<lambda>(a, b). (if a = v then [b] else []) @ (if b = v then [a] else []))
       (edges G))"

text \<open>
  \<^verbatim>\<open>_plain_bfs(G, n, source)\<close> of networkx: breadth-first search from
  \<open>source\<close>. \<open>seen\<close> holds every node reached so far, the queue those whose
  neighbours are still to be looked at; a neighbour is added to both when it is seen for
  the first time. The result is the set \<open>seen\<close> once the queue is empty.
\<close>

function bfs_loop :: "'n graph \<Rightarrow> 'n list \<Rightarrow> 'n list \<Rightarrow> 'n list" where
  "bfs_loop G seen [] = seen"
| "bfs_loop G seen (v # queue) =
     (let new = filter (\<lambda>w. w \<notin> set seen) (remdups (adj G v))
      in bfs_loop G (seen @ new) (queue @ new))"
  by pat_completeness auto

definition endpoints :: "'n graph \<Rightarrow> 'n set" where
  "endpoints G = fst ` set (edges G) \<union> snd ` set (edges G)"

lemma adj_subset_endpoints: "set (adj G v) \<subseteq> endpoints G"
  by (force simp: adj_def endpoints_def split: if_splits)

lemma finite_endpoints: "finite (endpoints G)"
  by (simp add: endpoints_def)

termination bfs_loop
proof (relation "measure (\<lambda>(G, seen, queue). 2 * card (endpoints G - set seen) + length queue)")
  show "wf (measure (\<lambda>(G, seen, queue). 2 * card (endpoints G - set seen) + length queue))"
    by simp
next
  fix G :: "'n graph" and seen v queue new
  assume new: "new = filter (\<lambda>w. w \<notin> set seen) (remdups (adj G v))"
  let ?U = "endpoints G - set seen"
  have sub: "set new \<subseteq> ?U"
    using adj_subset_endpoints [of G v] by (auto simp: new)
  have dist: "distinct new"
    by (simp add: new)
  have "endpoints G - set (seen @ new) = ?U - set new"
    by auto
  then have "card (endpoints G - set (seen @ new)) = card ?U - card (set new)"
    using sub finite_endpoints [of G] by (simp add: card_Diff_subset)
  moreover have "card (set new) \<le> card ?U"
    using sub finite_endpoints [of G] by (simp add: card_mono)
  moreover have "card (set new) = length new"
    using dist by (simp add: distinct_card)
  ultimately show "((G, seen @ new, queue @ new), (G, seen, v # queue))
      \<in> measure (\<lambda>(G, seen, queue). 2 * card (endpoints G - set seen) + length queue)"
    by simp
qed

definition plain_bfs :: "'n graph \<Rightarrow> 'n \<Rightarrow> 'n set" where
  "plain_bfs G source = set (bfs_loop G [source] [source])"

text \<open>
  \<^verbatim>\<open>nx.connected_components(G)\<close>: for every node in the graph's order that
  no earlier component holds, the set of nodes the search reaches from it.
\<close>

fun components_from :: "'n graph \<Rightarrow> 'n list \<Rightarrow> 'n set \<Rightarrow> 'n set list" where
  "components_from G [] seen = []"
| "components_from G (v # vs) seen =
     (if v \<in> seen then components_from G vs seen
      else let c = plain_bfs G v in c # components_from G vs (seen \<union> c))"

definition connected_components :: "'n graph \<Rightarrow> 'n set list" where
  "connected_components G = components_from G (nodes G) {}"

text \<open>
  \<^verbatim>\<open>G.subgraph(nbunch)\<close> is a view: it holds the graph it filters and the set
  of nodes it lets through. \<^verbatim>\<open>.copy()\<close> builds a graph of its own from a view:
  the nodes of the parent that pass, and every edge with both end points among them.
\<close>

datatype 'n subgraph_view = SubgraphView (parent: "'n graph") (node_ok: "'n set")

definition subgraph :: "'n graph \<Rightarrow> 'n set \<Rightarrow> 'n subgraph_view" where
  "subgraph G nbunch = SubgraphView G nbunch"

definition copy :: "'n subgraph_view \<Rightarrow> 'n graph" where
  "copy V =
     \<lparr> nodes = filter (\<lambda>n. n \<in> node_ok V) (nodes (parent V)),
       edges = filter (\<lambda>(u, v). u \<in> node_ok V \<and> v \<in> node_ok V) (edges (parent V)) \<rparr>"

definition largest_connected_component :: "'n graph \<Rightarrow> py_exception + 'n graph" where
  "largest_connected_component G =
     (let components = connected_components G
      in case py_max card components of
           Inl e \<Rightarrow> Inl e
         | Inr largest_component \<Rightarrow> Inr (copy (subgraph G largest_component)))"


section \<open>Geometry and the external libraries\<close>

text \<open>
  A shapely geometry: a polygon, a multi-polygon with its parts
  (\<^verbatim>\<open>geom.geoms\<close>), or a geometry of another type. What a polygon is made of is
  left open (\<open>'p\<close>): the script only hands geometries to the libraries.
\<close>

datatype 'p geometry = Polygon 'p | MultiPolygon "'p list" | OtherGeometry 'p

text \<open>
  What \<^verbatim>\<open>ox.save_graphml\<close> did: it wrote the file, or it raised. networkx opens the
  target for writing before it serialises the graph, so a save that raises may have left
  a file at the path (the flag).
\<close>

datatype save_outcome = Saved | SaveFailed py_exception bool

text \<open>
  The libraries and the map service, as the script sees them:
  \<^verbatim>\<open>geom.area\<close>, \<^verbatim>\<open>geom.simplify(tolerance, preserve_topology)\<close>,
  \<^verbatim>\<open>ox.graph_from_polygon(geom, network_type)\<close>, \<^verbatim>\<open>G.to_undirected()\<close> and
  \<^verbatim>\<open>ox.save_graphml(G, path)\<close>. Areas are real numbers: the rounding of floating
  point arithmetic is not modelled.
\<close>

record ('p, 'n) env =
  area :: "'p geometry \<Rightarrow> real"
  simplify :: "'p geometry \<Rightarrow> real \<Rightarrow> bool \<Rightarrow> 'p geometry"
  graph_from_polygon :: "'p geometry \<Rightarrow> string \<Rightarrow> py_exception + 'n graph"
  to_undirected :: "'n graph \<Rightarrow> 'n graph"
  save_graphml :: "'n graph \<Rightarrow> string \<Rightarrow> save_outcome"

subsection \<open>Parameters of the script\<close>

definition save_dir :: string where
  "save_dir = ''data/'' @
     [CHR 0xE5, CHR 0x9F, CHR 0x8E, CHR 0xE5, CHR 0xB8, CHR 0x82, CHR 0xE9, CHR 0x81, CHR 0x93,
      CHR 0xE8, CHR 0xB7, CHR 0xAF, CHR 0xE7, CHR 0xBD, CHR 0x91, CHR 0xE7, CHR 0xBB, CHR 0x9C,
      CHR 0xE6, CHR 0x95, CHR 0xB0, CHR 0xE6, CHR 0x8D, CHR 0xAE]"

definition network_type :: string where
  "network_type = ''drive_service''"

definition simplify_tolerance :: real where
  "simplify_tolerance = 1 / 100"

subsection \<open>\<^verbatim>\<open>get_city_polygon\<close>\<close>

definition get_city_polygon ::
  "('p, 'n) env \<Rightarrow> 'p geometry \<Rightarrow> real \<Rightarrow> py_exception + 'p geometry" where
  "get_city_polygon env geom tolerance =
     (case (case geom of
              MultiPolygon geoms \<Rightarrow> py_max (area env) (map Polygon geoms)
            | _ \<Rightarrow> Inr geom) of
        Inl e \<Rightarrow> Inl e
      | Inr geom' \<Rightarrow>
          Inr (if tolerance \<noteq> 0 then simplify env geom' tolerance True else geom'))"

section \<open>The CSV log and the file system\<close>

text \<open>
  A cell of the CSV log is a text, an integer, a float or empty (Python's
  \<^verbatim>\<open>None\<close> when written, pandas' \<^verbatim>\<open>NaN\<close> when read); a line is a list of
  cells and the file a list of lines, the header line first. Quoting, and the types
  pandas infers for a column, belong to the \<^verbatim>\<open>csv\<close> and pandas libraries and are
  not modelled: a cell is read back as it was written.
\<close>

datatype field = S string | N nat | F real | Empty

type_synonym line = "field list"

definition header :: "string list" where
  "header = [''city'', ''status'', ''nodes'', ''edges'', ''area_km2'']"

definition cell :: "line \<Rightarrow> nat \<Rightarrow> field" where
  "cell l i = (if i < length l then l ! i else Empty)"

fun index_of :: "'a \<Rightarrow> 'a list \<Rightarrow> nat option" where
  "index_of a [] = None"
| "index_of a (x # xs) = (if x = a then Some 0 else map_option Suc (index_of a xs))"

text \<open>
  \<^verbatim>\<open>csv.DictWriter(f, fieldnames=header).writerow(record)\<close>: the values of the
  dictionary in the order of the field names, \<^verbatim>\<open>None\<close> as an empty cell.
\<close>

definition writerow :: "(string \<times> field) list \<Rightarrow> line" where
  "writerow record = map (\<lambda>k. case map_of record k of Some v \<Rightarrow> v | None \<Rightarrow> Empty) header"

text \<open>
  The start of the script: when the CSV exists, \<^verbatim>\<open>pd.read_csv\<close> takes its first
  line as the column names (an empty file raises), and \<open>downloaded_cities\<close> is the set
  of the \<^verbatim>\<open>city\<close> cells of the rows whose \<^verbatim>\<open>status\<close> cell is
  \<^verbatim>\<open>"success"\<close>; a missing column raises \<^verbatim>\<open>KeyError\<close>.
\<close>

definition downloaded_cities :: "line list option \<Rightarrow> py_exception + field set" where
  "downloaded_cities file =
     (case file of
        None \<Rightarrow> Inr {}
      | Some [] \<Rightarrow> Inl (EmptyDataError ''No columns to parse from file'')
      | Some (columns # existing_records) \<Rightarrow>
          (case index_of (S ''status'') columns of
             None \<Rightarrow> Inl (KeyError ''status'')
           | Some si \<Rightarrow>
               (case index_of (S ''city'') columns of
                  None \<Rightarrow> Inl (KeyError ''city'')
                | Some ci \<Rightarrow>
                    Inr (set (map (\<lambda>r. cell r ci)
                      (filter (\<lambda>r. cell r si = S ''success'') existing_records))))))"

text \<open>
  The world the script acts on: the files of the output directory other than the log
  (a path maps to the graph a complete GraphML file holds, or to \<open>None\<close> for any other
  content), the CSV log (\<open>None\<close> while it does not exist), and the calls made to the
  map service and to \<^verbatim>\<open>time.sleep\<close>, in order.
\<close>

datatype event = GraphFromPolygon string | Sleep nat

record 'n world =
  files :: "string \<rightharpoonup> 'n graph option"
  csv :: "line list option"
  trace :: "event list"

definition csv_lines :: "'n world \<Rightarrow> line list" where
  "csv_lines w = (case csv w of None \<Rightarrow> [] | Some ls \<Rightarrow> ls)"

text \<open>
  Appending a record: the file is opened in append mode, the header is written when the
  position is 0 (the file is new or empty), then the row.
\<close>

definition append_record :: "(string \<times> field) list \<Rightarrow> 'n world \<Rightarrow> 'n world" where
  "append_record record w =
     (let content = csv_lines w;
          head = (if content = [] then [map S header] else [])
      in w\<lparr>csv := Some (content @ head @ [writerow record])\<rparr>)"

definition sleep :: "nat \<Rightarrow> 'n world \<Rightarrow> 'n world" where
  "sleep secs w = w\<lparr>trace := trace w @ [Sleep secs]\<rparr>"

text \<open>\<^verbatim>\<open>os.path.join\<close> (POSIX) on two components, and \<^verbatim>\<open>str.strip()\<close>.\<close>

definition path_join :: "string \<Rightarrow> string \<Rightarrow> string" where
  "path_join a b =
     (if b \<noteq> [] \<and> hd b = CHR ''/'' then b
      else if a = [] \<or> last a = CHR ''/'' then a @ b
      else a @ ''/'' @ b)"

definition save_path_of :: "string \<Rightarrow> string" where
  "save_path_of name = path_join save_dir (name @ ''.graphml'')"

definition is_space :: "char \<Rightarrow> bool" where
  "is_space c \<longleftrightarrow>
     c \<in> set [CHR '' '', CHR 0x09, CHR 0x0A, CHR 0x0B, CHR 0x0C, CHR 0x0D,
               CHR 0x1C, CHR 0x1D, CHR 0x1E, CHR 0x1F]"

definition strip :: "string \<Rightarrow> string" where
  "strip s = rev (dropWhile is_space (rev (dropWhile is_space s)))"

section \<open>The main loop\<close>

text \<open>
  A row of the boundary table: the text of its \<^verbatim>\<open>name\<close> and
  \<^verbatim>\<open>NAME\<close> cells (\<open>None\<close> when the table has no such column), its geometry and
  the geometry of the same row of the reprojected table (\<open>None\<close> for a null geometry).
\<close>

record 'p city_row =
  name_col :: "string option"
  NAME_col :: "string option"
  geometry :: "'p geometry option"
  geometry_proj :: "'p geometry option"

text \<open>What reading an attribute of \<^verbatim>\<open>None\<close> raises.\<close>

definition no_attribute :: "string \<Rightarrow> py_exception" where
  "no_attribute a =
     AttributeError
       ([CHR 0x27] @ ''NoneType'' @ [CHR 0x27] @ '' object has no attribute '' @
        [CHR 0x27] @ a @ [CHR 0x27])"

definition row_name :: "'p city_row \<Rightarrow> py_exception + string" where
  "row_name row =
     (case name_col row of
        Some v \<Rightarrow> Inr (strip v)
      | None \<Rightarrow>
          (case NAME_col row of
             Some v \<Rightarrow> Inr (strip v)
           | None \<Rightarrow> Inl (KeyError ''NAME'')))"

text \<open>
  The body of the \<^verbatim>\<open>try\<close>: reduce the geometry, download, convert, keep the
  largest component, save. The result is the exception raised, or the graph saved.
\<close>

definition download_reduce_save ::
  "('p, 'n) env \<Rightarrow> 'p city_row \<Rightarrow> string \<Rightarrow> string \<Rightarrow> 'n world
     \<Rightarrow> (py_exception + 'n graph) \<times> 'n world" where
  "download_reduce_save env row name save_path w =
     (case geometry row of
        None \<Rightarrow> (Inl (no_attribute ''geom_type''), w)
      | Some g \<Rightarrow>
          (case get_city_polygon env g simplify_tolerance of
             Inl e \<Rightarrow> (Inl e, w)
           | Inr geom \<Rightarrow>
               (let w1 = w\<lparr>trace := trace w @ [GraphFromPolygon name]\<rparr>
                in case graph_from_polygon env geom network_type of
                     Inl e \<Rightarrow> (Inl e, w1)
                   | Inr G \<Rightarrow>
                       (case largest_connected_component (to_undirected env G) of
                          Inl e \<Rightarrow> (Inl e, w1)
                        | Inr G_main \<Rightarrow>
                            (case save_graphml env G_main save_path of
                               SaveFailed e left \<Rightarrow>
                                 (Inl e,
                                  if left then w1\<lparr>files := (files w1)(save_path \<mapsto> None)\<rparr>
                                  else w1)
                             | Saved \<Rightarrow>
                                 (Inr G_main,
                                  w1\<lparr>files := (files w1)(save_path \<mapsto> Some G_main)\<rparr>))))))"

text \<open>The two dictionaries the loop body builds, on success and in the handler.\<close>

definition success_record :: "string \<Rightarrow> 'n graph \<Rightarrow> real \<Rightarrow> (string \<times> field) list" where
  "success_record name G_main area_km2 =
     [(''city'', S name), (''status'', S ''success''),
      (''nodes'', N (length (nodes G_main))), (''edges'', N (length (edges G_main))),
      (''area_km2'', F area_km2)]"

definition failure_record :: "string \<Rightarrow> py_exception \<Rightarrow> real \<Rightarrow> (string \<times> field) list" where
  "failure_record name e area_km2 =
     [(''city'', S name), (''status'', S (''failed: '' @ str_exception e)),
      (''nodes'', Empty), (''edges'', Empty), (''area_km2'', F area_km2)]"

text \<open>
  One iteration of the \<^verbatim>\<open>for\<close> loop. The first component of the result is an
  exception that no handler catches (it ends the run), the second the world afterwards.
  A skipped city leaves the loop body at \<^verbatim>\<open>continue\<close>, before the area, the
  \<^verbatim>\<open>try\<close>, the CSV and the sleep.
\<close>

definition city_iteration ::
  "('p, 'n) env \<Rightarrow> field set \<Rightarrow> 'p city_row \<Rightarrow> 'n world \<Rightarrow> py_exception option \<times> 'n world" where
  "city_iteration env downloaded row w =
     (case row_name row of
        Inl e \<Rightarrow> (Some e, w)
      | Inr name \<Rightarrow>
          (let save_path = save_path_of name
           in if S name \<in> downloaded \<or> save_path \<in> dom (files w) then (None, w)
              else
                (case geometry_proj row of
                   None \<Rightarrow> (Some (no_attribute ''area''), w)
                 | Some geom_proj \<Rightarrow>
                     (let area_km2 = area env geom_proj / 1000000;
                          (result, w1) = download_reduce_save env row name save_path w;
                          record =
                            (case result of
                               Inr G_main \<Rightarrow> success_record name G_main area_km2
                             | Inl e \<Rightarrow> failure_record name e area_km2)
                      in (None, sleep 3 (append_record record w1))))))"

fun run_cities ::
  "('p, 'n) env \<Rightarrow> field set \<Rightarrow> 'p city_row list \<Rightarrow> 'n world \<Rightarrow> py_exception option \<times> 'n world" where
  "run_cities env downloaded [] w = (None, w)"
| "run_cities env downloaded (row # rows) w =
     (case city_iteration env downloaded row w of
        (Some e, w') \<Rightarrow> (Some e, w')
      | (None, w') \<Rightarrow> run_cities env downloaded rows w')"

definition script ::
  "('p, 'n) env \<Rightarrow> 'p city_row list \<Rightarrow> 'n world \<Rightarrow> py_exception option \<times> 'n world" where
  "script env china_cities w =
     (case downloaded_cities (csv w) of
        Inl e \<Rightarrow> (Some e, w)
      | Inr downloaded \<Rightarrow> run_cities env downloaded china_cities w)"

section \<open>Notions of the specification\<close>

text \<open>
  Two nodes are connected when a path of edges, taken in either direction, leads from one
  to the other. A connected component, in the words of the specification, is a maximal
  set of nodes in which every pair is reachable from one another.
\<close>

definition edge_rel :: "'n graph \<Rightarrow> ('n \<times> 'n) set" where
  "edge_rel G = set (edges G) \<union> (set (edges G))\<inverse>"

definition reachable :: "'n graph \<Rightarrow> 'n \<Rightarrow> 'n \<Rightarrow> bool" where
  "reachable G u v \<longleftrightarrow> (u, v) \<in> (edge_rel G)\<^sup>*"

definition is_connected_component :: "'n graph \<Rightarrow> 'n set \<Rightarrow> bool" where
  "is_connected_component G c \<longleftrightarrow>
     c \<noteq> {} \<and> c \<subseteq> set (nodes G) \<and>
     (\<forall>u\<in>c. \<forall>v\<in>c. reachable G u v) \<and>
     (\<forall>u\<in>c. \<forall>v. reachable G u v \<longrightarrow> v \<in> c)"


text \<open>
  The rows of a city among lines of the log: the lines, other than the header line, whose
  first cell is the city's name. The cities marked as a success in the log the script
  writes: the first cells of the lines after the header whose second cell is
  \<^verbatim>\<open>"success"\<close>.
\<close>

definition rows_of_city :: "string \<Rightarrow> line list \<Rightarrow> line list" where
  "rows_of_city n ls = filter (\<lambda>l. l \<noteq> map S header \<and> cell l 0 = S n) ls"

definition success_cities :: "'n world \<Rightarrow> field list" where
  "success_cities w =
     map (\<lambda>l. cell l 0) (filter (\<lambda>l. cell l 1 = S ''success'') (tl (csv_lines w)))"

definition skipped :: "field set \<Rightarrow> 'n world \<Rightarrow> string \<Rightarrow> bool" where
  "skipped downloaded w n \<longleftrightarrow> S n \<in> downloaded \<or> save_path_of n \<in> dom (files w)"

section \<open>Concrete inputs\<close>

text \<open>
  A graph with three components, of 3, 5 and 2 nodes: a path, a cycle and a single edge.
\<close>

definition three_five_two :: "nat graph" where
  "three_five_two =
     \<lparr> nodes = [1, 2, 3, 4, 5, 6, 7, 8, 9, 10],
       edges = [(1, 2), (2, 3), (4, 5), (5, 6), (6, 7), (7, 8), (8, 4), (9, 10)] \<rparr>"

definition empty_graph :: "nat graph" where
  "empty_graph = \<lparr> nodes = [], edges = [] \<rparr>"

text \<open>The 5-node cycle of that graph, and a graph of one node without edges.\<close>

definition five_cycle :: "nat graph" where
  "five_cycle = \<lparr> nodes = [4, 5, 6, 7, 8], edges = [(4, 5), (5, 6), (6, 7), (7, 8), (8, 4)] \<rparr>"

definition one_node :: "nat graph" where
  "one_node = \<lparr> nodes = [1], edges = [] \<rparr>"

text \<open>
  A polygon is given by its area and a mark that tells whether it has been simplified.
  The libraries of the examples: the area of a geometry is the sum of the areas of its
  parts, simplifying sets the mark, the map service answers with the graph above, and
  saving succeeds.
\<close>

definition example_env :: "(nat \<times> bool, nat) env" where
  "example_env =
     \<lparr> area = (\<lambda>g. case g of
                  Polygon p \<Rightarrow> real (fst p)
                | MultiPolygon ps \<Rightarrow> real (sum_list (map fst ps))
                | OtherGeometry p \<Rightarrow> 0),
       simplify = (\<lambda>g tolerance preserve_topology. case g of
                  Polygon p \<Rightarrow> Polygon (fst p, True)
                | MultiPolygon ps \<Rightarrow> MultiPolygon (map (\<lambda>p. (fst p, True)) ps)
                | OtherGeometry p \<Rightarrow> OtherGeometry (fst p, True)),
       graph_from_polygon = (\<lambda>g nt. Inr three_five_two),
       to_undirected = (\<lambda>G. G),
       save_graphml = (\<lambda>G path. Saved) \<rparr>"

text \<open>The map service times out; the disk is full; the service answers with one node.\<close>

definition timeout_env :: "(nat \<times> bool, nat) env" where
  "timeout_env =
     example_env\<lparr>graph_from_polygon := (\<lambda>g nt. Inl (LibraryError ''Connection timed out''))\<rparr>"

definition disk_full_env :: "(nat \<times> bool, nat) env" where
  "disk_full_env =
     example_env\<lparr>save_graphml :=
       (\<lambda>G path. SaveFailed (LibraryError ''No space left on device'') True)\<rparr>"

definition isolated_env :: "(nat \<times> bool, nat) env" where
  "isolated_env =
     example_env\<lparr>graph_from_polygon := (\<lambda>g nt. Inr one_node)\<rparr>"

text \<open>
  A city \<^verbatim>\<open>X\<close> whose boundary has three parts, of area 10, 50 and 2 (in square
  degrees) and of 10, 50 and 2 square kilometres after reprojection; a world without
  log and without files; the same world with a file at the path of the city's graph.
\<close>

definition city_X :: "(nat \<times> bool) city_row" where
  "city_X =
     \<lparr> name_col = Some '' X'', NAME_col = None,
       geometry = Some (MultiPolygon [(10, False), (50, False), (2, False)]),
       geometry_proj =
         Some (MultiPolygon [(10000000, False), (50000000, False), (2000000, False)]) \<rparr>"

definition fresh_world :: "nat world" where
  "fresh_world = \<lparr> files = Map.empty, csv = None, trace = [] \<rparr>"

definition world_with_file :: "nat world" where
  "world_with_file = fresh_world\<lparr>files := [save_path_of ''X'' \<mapsto> None]\<rparr>"

text \<open>The log after a first successful run for \<^verbatim>\<open>X\<close>, the graph file removed.\<close>

definition world_logged :: "nat world" where
  "world_logged =
     fresh_world\<lparr>csv := Some [map S header, [S ''X'', S ''success'', N 5, N 5, F 62]]\<rparr>"

text \<open>The log after a failed run for \<^verbatim>\<open>X\<close>.\<close>

definition world_failed :: "nat world" where
  "world_failed =
     fresh_world\<lparr>csv := Some [map S header,
       [S ''X'', S ''failed: Connection timed out'', Empty, Empty, F 62]]\<rparr>"

section \<open>Connected components: the search is correct\<close>

lemma adj_iff: "w \<in> set (adj G v) \<longleftrightarrow> (v, w) \<in> edge_rel G"
  by (force simp: adj_def edge_rel_def split: if_splits)

lemma bfs_loop_mono: "set seen \<subseteq> set (bfs_loop G seen queue)"
  by (induction G seen queue rule: bfs_loop.induct) (auto simp: Let_def)

lemma bfs_loop_sound:
  "set seen \<subseteq> R \<Longrightarrow> set queue \<subseteq> R \<Longrightarrow> (\<forall>x\<in>R. \<forall>y. (x, y) \<in> edge_rel G \<longrightarrow> y \<in> R)
   \<Longrightarrow> set (bfs_loop G seen queue) \<subseteq> R"
proof (induction G seen queue rule: bfs_loop.induct)
  case (1 G seen)
  then show ?case by simp
next
  case (2 G seen v queue)
  let ?new = "filter (\<lambda>w. w \<notin> set seen) (remdups (adj G v))"
  have "set ?new \<subseteq> R"
    using "2.prems" by (auto simp: adj_iff)
  then have "set (bfs_loop G (seen @ ?new) (queue @ ?new)) \<subseteq> R"
    using "2.prems" by (intro "2.IH") auto
  then show ?case by (simp add: Let_def)
qed

lemma bfs_loop_closed:
  "set queue \<subseteq> set seen \<Longrightarrow>
   (\<forall>x\<in>set seen - set queue. \<forall>y. (x, y) \<in> edge_rel G \<longrightarrow> y \<in> set seen) \<Longrightarrow>
   x \<in> set (bfs_loop G seen queue) \<Longrightarrow> (x, y) \<in> edge_rel G \<Longrightarrow>
   y \<in> set (bfs_loop G seen queue)"
proof (induction G seen queue rule: bfs_loop.induct)
  case (1 G seen)
  then show ?case by simp
next
  case (2 G seen v queue)
  let ?new = "filter (\<lambda>w. w \<notin> set seen) (remdups (adj G v))"
  have q: "set (queue @ ?new) \<subseteq> set (seen @ ?new)"
    using "2.prems"(1) by auto
  have inv: "\<forall>a\<in>set (seen @ ?new) - set (queue @ ?new). \<forall>b. (a, b) \<in> edge_rel G \<longrightarrow> b \<in> set (seen @ ?new)"
  proof (intro ballI allI impI)
    fix a b
    assume a: "a \<in> set (seen @ ?new) - set (queue @ ?new)" and ab: "(a, b) \<in> edge_rel G"
    show "b \<in> set (seen @ ?new)"
    proof (cases "a = v")
      case True
      then have "b \<in> set (adj G v)" using ab by (simp add: adj_iff)
      then show ?thesis by auto
    next
      case False
      then have "a \<in> set seen - set (v # queue)" using a by auto
      then have "b \<in> set seen" using "2.prems"(2) ab by blast
      then show ?thesis by simp
    qed
  qed
  have "y \<in> set (bfs_loop G (seen @ ?new) (queue @ ?new))"
    using "2.IH" [OF refl q inv] "2.prems"(3,4) by (simp add: Let_def)
  then show ?case by (simp add: Let_def)
qed

lemma plain_bfs_reachable: "plain_bfs G v = {u. reachable G v u}"
proof (rule set_eqI, rule iffI)
  fix u
  assume "u \<in> plain_bfs G v"
  moreover have "set (bfs_loop G [v] [v]) \<subseteq> {u. (v, u) \<in> (edge_rel G)\<^sup>*}"
    by (rule bfs_loop_sound) (auto intro: rtrancl_into_rtrancl)
  ultimately show "u \<in> {u. reachable G v u}"
    by (auto simp: plain_bfs_def reachable_def)
next
  fix u
  assume "u \<in> {u. reachable G v u}"
  then have "(v, u) \<in> (edge_rel G)\<^sup>*" by (simp add: reachable_def)
  then have "u \<in> set (bfs_loop G [v] [v])"
  proof (induction rule: rtrancl_induct)
    case base
    then show ?case using bfs_loop_mono [of "[v]" G "[v]"] by simp
  next
    case (step y z)
    then show ?case
      using bfs_loop_closed [of "[v]" "[v]" G y z] by simp
  qed
  then show "u \<in> plain_bfs G v" by (simp add: plain_bfs_def)
qed


lemma edge_rel_sym: "(u, v) \<in> edge_rel G \<Longrightarrow> (v, u) \<in> edge_rel G"
  by (auto simp: edge_rel_def)

lemma reachable_refl: "reachable G v v"
  by (simp add: reachable_def)

lemma reachable_trans: "reachable G u v \<Longrightarrow> reachable G v w \<Longrightarrow> reachable G u w"
  by (auto simp: reachable_def)

lemma reachable_sym: "reachable G u v \<Longrightarrow> reachable G v u"
proof -
  have "sym (edge_rel G)"
    by (auto simp: sym_def edge_rel_sym)
  then have "sym ((edge_rel G)\<^sup>*)"
    by (rule sym_rtrancl)
  then show "reachable G u v \<Longrightarrow> reachable G v u"
    by (auto simp: reachable_def sym_def)
qed

lemma reachable_in_nodes:
  assumes "wf_graph G" and "u \<in> set (nodes G)" and "reachable G u v"
  shows "v \<in> set (nodes G)"
proof -
  have "(u, v) \<in> (edge_rel G)\<^sup>*"
    using assms(3) by (simp add: reachable_def)
  then show ?thesis
  proof (induction rule: rtrancl_induct)
    case base
    then show ?case using assms(2) by simp
  next
    case (step y z)
    then show ?case
      using assms(1) by (auto simp: wf_graph_def edge_rel_def list_all_iff)
  qed
qed

lemma plain_bfs_component:
  assumes "wf_graph G" and "v \<in> set (nodes G)"
  shows "is_connected_component G (plain_bfs G v)"
proof -
  let ?c = "{u. reachable G v u}"
  have 1: "?c \<noteq> {}"
    using reachable_refl [of G v] by blast
  have 2: "?c \<subseteq> set (nodes G)"
    using reachable_in_nodes [OF assms] by blast
  have 3: "\<forall>u\<in>?c. \<forall>w\<in>?c. reachable G u w"
  proof (intro ballI)
    fix u w
    assume "u \<in> ?c" and "w \<in> ?c"
    then have vu: "reachable G v u" and vw: "reachable G v w"
      by simp_all
    have "reachable G u v"
      using vu by (rule reachable_sym)
    then show "reachable G u w"
      using vw by (rule reachable_trans)
  qed
  have 4: "\<forall>u\<in>?c. \<forall>w. reachable G u w \<longrightarrow> w \<in> ?c"
  proof (intro ballI allI impI)
    fix u w
    assume "u \<in> ?c" and "reachable G u w"
    then have "reachable G v w"
      using reachable_trans [of G v u w] by simp
    then show "w \<in> ?c" by simp
  qed
  show ?thesis
    unfolding is_connected_component_def plain_bfs_reachable
    using 1 2 3 4 by (intro conjI)
qed

lemma component_eq_class:
  assumes "is_connected_component G c" and "v \<in> c"
  shows "c = {u. reachable G v u}"
proof -
  have pairs: "\<forall>u\<in>c. \<forall>w\<in>c. reachable G u w"
    using assms(1) unfolding is_connected_component_def by (elim conjE)
  have closed: "\<forall>u\<in>c. \<forall>w. reachable G u w \<longrightarrow> w \<in> c"
    using assms(1) unfolding is_connected_component_def by (elim conjE)
  show ?thesis
  proof (rule set_eqI, rule iffI)
    fix u
    assume "u \<in> c"
    with pairs assms(2) have "reachable G v u" by (elim ballE) auto
    then show "u \<in> {u. reachable G v u}" by (rule CollectI)
  next
    fix u
    assume "u \<in> {u. reachable G v u}"
    then have "reachable G v u" by (rule CollectD)
    with closed assms(2) show "u \<in> c" by (elim ballE allE) auto
  qed
qed

lemma components_from_bfs:
  "c \<in> set (components_from G vs seen) \<Longrightarrow> \<exists>v\<in>set vs. c = plain_bfs G v"
  by (induction G vs seen rule: components_from.induct) (auto simp: Let_def split: if_splits)

lemma components_from_cover:
  "v \<in> set vs \<Longrightarrow> v \<in> seen \<or> (\<exists>c\<in>set (components_from G vs seen). v \<in> c)"
proof (induction G vs seen rule: components_from.induct)
  case (1 G seen)
  then show ?case by simp
next
  case (2 G x vs seen)
  show ?case
  proof (cases "x \<in> seen")
    case True
    then show ?thesis using 2 by auto
  next
    case False
    have x: "x \<in> plain_bfs G x"
      by (simp add: plain_bfs_reachable reachable_refl)
    show ?thesis
    proof (cases "v = x")
      case True
      then show ?thesis using False x by (auto simp: Let_def)
    next
      case neq: False
      then have "v \<in> set vs" using "2.prems" by simp
      from "2.IH"(2) [OF False refl this] show ?thesis
        using False by (auto simp: Let_def)
    qed
  qed
qed

lemma components_from_nonempty:
  "\<exists>v\<in>set vs. v \<notin> seen \<Longrightarrow> components_from G vs seen \<noteq> []"
  by (induction G vs seen rule: components_from.induct) (auto simp: Let_def)

lemma connected_components_empty_iff: "connected_components G = [] \<longleftrightarrow> nodes G = []"
proof
  assume "connected_components G = []"
  then show "nodes G = []"
    using components_from_nonempty [of "nodes G" "{}" G]
    by (cases "nodes G") (auto simp: connected_components_def)
next
  assume "nodes G = []"
  then show "connected_components G = []"
    by (simp add: connected_components_def)
qed

lemma connected_components_are_components:
  assumes "wf_graph G" and "c \<in> set (connected_components G)"
  shows "is_connected_component G c"
  using components_from_bfs [of c G "nodes G" "{}"] assms plain_bfs_component
  by (auto simp: connected_components_def)

lemma component_listed:
  assumes "wf_graph G" and "is_connected_component G c"
  shows "c \<in> set (connected_components G)"
proof -
  obtain v where v: "v \<in> c" "v \<in> set (nodes G)"
    using assms(2) unfolding is_connected_component_def by blast
  then obtain c' where c': "c' \<in> set (connected_components G)" "v \<in> c'"
    using components_from_cover [of v "nodes G" "{}" G]
    by (auto simp: connected_components_def)
  have "is_connected_component G c'"
    using connected_components_are_components [OF assms(1) c'(1)] .
  then have "c' = {u. reachable G v u}"
    using c'(2) by (rule component_eq_class)
  moreover have "c = {u. reachable G v u}"
    using assms(2) v(1) by (rule component_eq_class)
  ultimately show ?thesis using c'(1) by simp
qed

lemma fold_max_mem:
  "fold (\<lambda>y best. if key best < key y then y else best) rest x \<in> set (x # rest)"
proof (induction rest arbitrary: x)
  case Nil
  then show ?case by simp
next
  case (Cons y ys)
  show ?case
    using Cons [of y] Cons [of x] by (cases "key x < key y") auto
qed

lemma fold_max_ge:
  fixes key :: "'a \<Rightarrow> 'k::linorder"
  shows "key x \<le> key (fold (\<lambda>y best. if key best < key y then y else best) rest x)"
proof (induction rest arbitrary: x)
  case Nil
  then show ?case by simp
next
  case (Cons y ys)
  show ?case
  proof (cases "key x < key y")
    case True
    have "key y \<le> key (fold (\<lambda>y best. if key best < key y then y else best) ys y)"
      by (rule Cons)
    then show ?thesis using True by simp
  next
    case False
    then show ?thesis using Cons [of x] by simp
  qed
qed

lemma fold_max_key:
  fixes key :: "'a \<Rightarrow> 'k::linorder"
  shows "z \<in> set (x # rest) \<Longrightarrow>
    key z \<le> key (fold (\<lambda>y best. if key best < key y then y else best) rest x)"
proof (induction rest arbitrary: x)
  case Nil
  then show ?case by simp
next
  case (Cons y ys)
  let ?f = "\<lambda>y best. if key best < key y then y else best"
  show ?case
  proof (cases "key x < key y")
    case True
    then have eq: "fold ?f (y # ys) x = fold ?f ys y" by simp
    show ?thesis
    proof (cases "z = x")
      case z: True
      have "key y \<le> key (fold ?f ys y)" by (rule fold_max_ge)
      then show ?thesis unfolding eq using True z by simp
    next
      case False
      then have "z \<in> set (y # ys)" using Cons.prems by simp
      then show ?thesis unfolding eq by (rule Cons.IH)
    qed
  next
    case False
    then have eq: "fold ?f (y # ys) x = fold ?f ys x" by simp
    show ?thesis
    proof (cases "z = y")
      case z: True
      have "key x \<le> key (fold ?f ys x)" by (rule fold_max_ge)
      then show ?thesis unfolding eq using False z by simp
    next
      case neq: False
      then have "z \<in> set (x # ys)" using Cons.prems by auto
      then show ?thesis unfolding eq by (rule Cons.IH)
    qed
  qed
qed

lemma py_max_Inr:
  assumes "py_max key xs = Inr m"
  shows "m \<in> set xs \<and> (\<forall>z\<in>set xs. key z \<le> key m)"
proof (cases xs)
  case Nil
  then show ?thesis using assms by (simp add: py_max_def)
next
  case (Cons x rest)
  then have m: "m = fold (\<lambda>y best. if key best < key y then y else best) rest x"
    using assms by (simp add: py_max_def)
  show ?thesis
    unfolding m Cons using fold_max_mem [of key rest x] fold_max_key [of _ x rest key]
    by blast
qed

lemma py_max_nonempty: "xs \<noteq> [] \<Longrightarrow> \<exists>m. py_max key xs = Inr m"
  by (cases xs) (auto simp: py_max_def)

lemma py_max_empty: "py_max key [] = Inl (ValueError ''max() arg is an empty sequence'')"
  by (simp add: py_max_def)


lemma largest_connected_component_nonempty:
  assumes "largest_connected_component G = Inr H"
  shows "nodes H \<noteq> []"
proof -
  obtain c where c: "py_max card (connected_components G) = Inr c"
    and H: "H = copy (subgraph G c)"
    using assms by (auto simp: largest_connected_component_def split: sum.splits)
  have "c \<in> set (connected_components G)"
    using py_max_Inr [OF c] by blast
  then obtain v where v: "v \<in> set (nodes G)" "c = plain_bfs G v"
    using components_from_bfs [of c G "nodes G" "{}"] by (auto simp: connected_components_def)
  have "v \<in> c"
    using v(2) by (simp add: plain_bfs_reachable reachable_refl)
  then have "v \<in> set (nodes H)"
    using v(1) by (simp add: H copy_def subgraph_def)
  then show ?thesis by auto
qed

section \<open>The loop body and the loop\<close>

lemma save_dir_hd: "save_dir \<noteq> [] \<and> hd save_dir = CHR ''d'' \<and> last save_dir \<noteq> CHR ''/''"
  by (simp add: save_dir_def)

lemma save_path_of_inj: "save_path_of n = save_path_of m \<Longrightarrow> n = m"
proof -
  assume eq: "save_path_of n = save_path_of m"
  have rel: "\<And>b. \<not> (b \<noteq> [] \<and> hd b = CHR ''/'') \<Longrightarrow> path_join save_dir b = save_dir @ ''/'' @ b"
    using save_dir_hd by (simp add: path_join_def)
  have abs: "\<And>b. b \<noteq> [] \<and> hd b = CHR ''/'' \<Longrightarrow> path_join save_dir b = b"
    by (simp add: path_join_def)
  have hd_rel: "\<And>b. hd (save_dir @ ''/'' @ b) = CHR ''d''"
    using save_dir_hd by simp
  let ?n = "n @ ''.graphml''" and ?m = "m @ ''.graphml''"
  show "n = m"
  proof (cases "?n \<noteq> [] \<and> hd ?n = CHR ''/''")
    case n: True
    show ?thesis
    proof (cases "?m \<noteq> [] \<and> hd ?m = CHR ''/''")
      case True
      then show ?thesis using eq n abs by (simp add: save_path_of_def)
    next
      case False
      then have "hd (path_join save_dir ?m) = CHR ''d''"
        using rel [OF False] hd_rel by simp
      moreover have "hd (path_join save_dir ?n) = CHR ''/''"
        using abs [OF n] n by simp
      ultimately show ?thesis using eq by (simp add: save_path_of_def)
    qed
  next
    case n: False
    show ?thesis
    proof (cases "?m \<noteq> [] \<and> hd ?m = CHR ''/''")
      case True
      then have "hd (path_join save_dir ?m) = CHR ''/''"
        using abs [OF True] by simp
      moreover have "hd (path_join save_dir ?n) = CHR ''d''"
        using rel [OF n] hd_rel by simp
      ultimately show ?thesis using eq by (simp add: save_path_of_def)
    next
      case False
      then show ?thesis using eq rel [OF n] rel [OF False] by (simp add: save_path_of_def)
    qed
  qed
qed

lemma writerow_success:
  "writerow (success_record n G a) =
     [S n, S ''success'', N (length (nodes G)), N (length (edges G)), F a]"
  by (simp add: writerow_def success_record_def header_def)

lemma writerow_failure:
  "writerow (failure_record n e a) =
     [S n, S (''failed: '' @ str_exception e), Empty, Empty, F a]"
  by (simp add: writerow_def failure_record_def header_def)

lemma csv_lines_append_record:
  "csv_lines (append_record r w) =
     csv_lines w @ (if csv_lines w = [] then [map S header] else []) @ [writerow r]"
  by (simp add: append_record_def csv_lines_def Let_def)

lemma append_record_other [simp]:
  "files (append_record r w) = files w" "trace (append_record r w) = trace w"
  by (simp_all add: append_record_def Let_def)

lemma sleep_other [simp]:
  "files (sleep k w) = files w" "csv (sleep k w) = csv w" "trace (sleep k w) = trace w @ [Sleep k]"
  by (simp_all add: sleep_def)

lemma csv_lines_sleep [simp]: "csv_lines (sleep k w) = csv_lines w"
  by (simp add: csv_lines_def)

lemma download_reduce_save_csv:
  "download_reduce_save env row n p w = (res, w1) \<Longrightarrow> csv w1 = csv w"
  by (auto simp: download_reduce_save_def Let_def
      split: option.splits sum.splits save_outcome.splits if_splits)

lemma download_reduce_save_trace:
  "download_reduce_save env row n p w = (res, w1) \<Longrightarrow>
     trace w1 = trace w \<or> trace w1 = trace w @ [GraphFromPolygon n]"
  by (auto simp: download_reduce_save_def Let_def
      split: option.splits sum.splits save_outcome.splits if_splits)

lemma download_reduce_save_files_Inl:
  "download_reduce_save env row n p w = (Inl e, w1) \<Longrightarrow>
     files w1 = files w \<or>
     (\<exists>G_main. save_graphml env G_main p = SaveFailed e True \<and> files w1 = (files w)(p \<mapsto> None))"
  by (auto simp: download_reduce_save_def Let_def
      split: option.splits sum.splits save_outcome.splits if_splits)

lemma download_reduce_save_files_Inr:
  "download_reduce_save env row n p w = (Inr G_main, w1) \<Longrightarrow>
     files w1 = (files w)(p \<mapsto> Some G_main) \<and> save_graphml env G_main p = Saved \<and>
     (\<exists>g geom G. geometry row = Some g \<and> get_city_polygon env g simplify_tolerance = Inr geom \<and>
        graph_from_polygon env geom network_type = Inr G \<and>
        largest_connected_component (to_undirected env G) = Inr G_main)"
  by (auto simp: download_reduce_save_def Let_def
      split: option.splits sum.splits save_outcome.splits if_splits)

lemma city_iteration_skip:
  "row_name row = Inr n \<Longrightarrow> S n \<in> D \<or> save_path_of n \<in> dom (files w) \<Longrightarrow>
     city_iteration env D row w = (None, w)"
  by (auto simp: city_iteration_def Let_def)

lemma city_iteration_processed:
  assumes "row_name row = Inr n" and "S n \<notin> D" and "save_path_of n \<notin> dom (files w)"
    and "geometry_proj row = Some gp"
    and "download_reduce_save env row n (save_path_of n) w = (res, w1)"
  shows "city_iteration env D row w =
     (None, sleep 3 (append_record
        (case res of Inr G_main \<Rightarrow> success_record n G_main (area env gp / 1000000)
                   | Inl e \<Rightarrow> failure_record n e (area env gp / 1000000)) w1))"
  using assms by (simp add: city_iteration_def Let_def)


lemma city_iteration_cases:
  assumes "city_iteration env D row w = (r, w')"
  obtains (unchanged) "w' = w"
  | (processed) n gp res w1 where "r = None" and "row_name row = Inr n" and "\<not> skipped D w n"
      and "geometry_proj row = Some gp"
      and "download_reduce_save env row n (save_path_of n) w = (res, w1)"
      and "w' = sleep 3 (append_record
        (case res of Inr G_main \<Rightarrow> success_record n G_main (area env gp / 1000000)
                   | Inl e \<Rightarrow> failure_record n e (area env gp / 1000000)) w1)"
proof (cases "row_name row")
  case (Inl e)
  then show ?thesis using assms unchanged by (simp add: city_iteration_def)
next
  case (Inr n)
  show ?thesis
  proof (cases "skipped D w n")
    case True
    then show ?thesis
      using assms Inr unchanged by (simp add: city_iteration_def skipped_def Let_def)
  next
    case ns: False
    show ?thesis
    proof (cases "geometry_proj row")
      case None
      then show ?thesis
        using assms Inr ns unchanged by (simp add: city_iteration_def skipped_def Let_def)
    next
      case (Some gp)
      obtain res w1 where drs: "download_reduce_save env row n (save_path_of n) w = (res, w1)"
        by (cases "download_reduce_save env row n (save_path_of n) w")
      have "city_iteration env D row w =
         (None, sleep 3 (append_record
            (case res of Inr G_main \<Rightarrow> success_record n G_main (area env gp / 1000000)
                       | Inl e \<Rightarrow> failure_record n e (area env gp / 1000000)) w1))"
        using Inr ns Some drs by (intro city_iteration_processed) (auto simp: skipped_def)
      then show ?thesis
        using assms processed [OF _ Inr ns Some drs] by simp
    qed
  qed
qed

lemma download_reduce_save_dom:
  "download_reduce_save env row n p w = (res, w1) \<Longrightarrow>
     dom (files w) \<subseteq> dom (files w1) \<and> (\<forall>q. q \<noteq> p \<longrightarrow> files w1 q = files w q)"
  by (cases res)
    (auto dest!: download_reduce_save_files_Inl download_reduce_save_files_Inr)

lemma writerow_record_cells:
  "cell (writerow (case res of Inr G_main \<Rightarrow> success_record n G_main a
                            | Inl e \<Rightarrow> failure_record n e a)) 0 = S n"
  "cell (writerow (case res of Inr G_main \<Rightarrow> success_record n G_main a
                            | Inl e \<Rightarrow> failure_record n e a)) 4 = F a"
  "writerow (case res of Inr G_main \<Rightarrow> success_record n G_main a
                            | Inl e \<Rightarrow> failure_record n e a) \<noteq> map S header"
  by (cases res; simp add: writerow_success writerow_failure cell_def header_def)+

lemma iteration_skipped_city:
  assumes "city_iteration env D row w = (r, w')" and "skipped D w n"
  shows "skipped D w' n \<and>
    (\<exists>evs. trace w' = trace w @ evs \<and> GraphFromPolygon n \<notin> set evs) \<and>
    (\<exists>new. csv_lines w' = csv_lines w @ new \<and> rows_of_city n new = []) \<and>
    files w' (save_path_of n) = files w (save_path_of n)"
  using assms(1)
proof (cases rule: city_iteration_cases)
  case unchanged
  then show ?thesis using assms(2) by (simp add: rows_of_city_def)
next
  case (processed m gp res w1)
  have neq: "m \<noteq> n"
    using processed(3) assms(2) by auto
  then have pneq: "save_path_of n \<noteq> save_path_of m"
    using save_path_of_inj by blast
  note dom = download_reduce_save_dom [OF processed(5)]
  have f: "files w' (save_path_of n) = files w (save_path_of n)"
    using dom pneq by (simp add: processed(6))
  have "dom (files w) \<subseteq> dom (files w')"
    using dom by (simp add: processed(6))
  then have s: "skipped D w' n"
    using assms(2) by (auto simp: skipped_def)
  have "trace w1 = trace w \<or> trace w1 = trace w @ [GraphFromPolygon m]"
    using download_reduce_save_trace [OF processed(5)] .
  then have t: "\<exists>evs. trace w' = trace w @ evs \<and> GraphFromPolygon n \<notin> set evs"
    using neq by (auto simp: processed(6))
  have "csv_lines w1 = csv_lines w"
    using download_reduce_save_csv [OF processed(5)] by (simp add: csv_lines_def)
  then have c: "\<exists>new. csv_lines w' = csv_lines w @ new \<and> rows_of_city n new = []"
    using neq
    by (simp add: processed(6) csv_lines_append_record rows_of_city_def writerow_record_cells)
  show ?thesis using s t c f by (intro conjI)
qed

lemma run_cities_skipped_city:
  "run_cities env D rows w = (r, w') \<Longrightarrow> skipped D w n \<Longrightarrow>
    (\<exists>evs. trace w' = trace w @ evs \<and> GraphFromPolygon n \<notin> set evs) \<and>
    (\<exists>new. csv_lines w' = csv_lines w @ new \<and> rows_of_city n new = []) \<and>
    files w' (save_path_of n) = files w (save_path_of n)"
proof (induction rows arbitrary: w)
  case Nil
  then show ?case by (simp add: rows_of_city_def)
next
  case (Cons row rows)
  obtain r1 w1 where it: "city_iteration env D row w = (r1, w1)"
    by (cases "city_iteration env D row w")
  note step = iteration_skipped_city [OF it Cons.prems(2)]
  show ?case
  proof (cases r1)
    case (Some e)
    then have "w' = w1" using Cons.prems(1) it by simp
    then show ?thesis using step by simp
  next
    case None
    then have "run_cities env D rows w1 = (r, w')"
      using Cons.prems(1) it by simp
    then have rest: "(\<exists>evs. trace w' = trace w1 @ evs \<and> GraphFromPolygon n \<notin> set evs) \<and>
      (\<exists>new. csv_lines w' = csv_lines w1 @ new \<and> rows_of_city n new = []) \<and>
      files w' (save_path_of n) = files w1 (save_path_of n)"
      using step by (intro Cons.IH) simp_all
    obtain evs1 new1 where 1: "trace w1 = trace w @ evs1" "GraphFromPolygon n \<notin> set evs1"
      "csv_lines w1 = csv_lines w @ new1" "rows_of_city n new1 = []"
      using step by blast
    obtain evs2 new2 where 2: "trace w' = trace w1 @ evs2" "GraphFromPolygon n \<notin> set evs2"
      "csv_lines w' = csv_lines w1 @ new2" "rows_of_city n new2 = []"
      using rest by blast
    have t: "trace w' = trace w @ (evs1 @ evs2) \<and> GraphFromPolygon n \<notin> set (evs1 @ evs2)"
      using 1 2 by simp
    have c: "csv_lines w' = csv_lines w @ (new1 @ new2) \<and> rows_of_city n (new1 @ new2) = []"
      using 1 2 by (simp add: rows_of_city_def)
    have f: "files w' (save_path_of n) = files w (save_path_of n)"
      using rest step by simp
    show ?thesis using t c f by blast
  qed
qed

lemma iteration_rows:
  assumes "city_iteration env D row w = (r, w')"
  shows "\<exists>new. csv_lines w' = csv_lines w @ new \<and>
    (\<forall>l\<in>set new. l = map S header \<or>
      (\<exists>n gp. row_name row = Inr n \<and> geometry_proj row = Some gp \<and> length l = 5 \<and>
         cell l 0 = S n \<and> cell l 4 = F (area env gp / 1000000)))"
  using assms
proof (cases rule: city_iteration_cases)
  case unchanged
  then show ?thesis by simp
next
  case (processed n gp res w1)
  have "csv_lines w1 = csv_lines w"
    using download_reduce_save_csv [OF processed(5)] by (simp add: csv_lines_def)
  moreover have "length (writerow (case res of
      Inr G_main \<Rightarrow> success_record n G_main (area env gp / 1000000)
    | Inl e \<Rightarrow> failure_record n e (area env gp / 1000000))) = 5"
    by (simp add: writerow_def header_def)
  ultimately show ?thesis
    using processed(2,4)
    by (simp add: processed(6) csv_lines_append_record writerow_record_cells)
qed

lemma run_cities_single:
  "run_cities env D [row] w = city_iteration env D row w"
  by (cases "city_iteration env D row w") (auto split: option.splits)

section \<open>The concrete inputs, evaluated\<close>

lemma row_name_city_X: "row_name city_X = Inr ''X''"
  by (simp add: row_name_def city_X_def strip_def is_space_def)

lemma geometry_city_X:
  "geometry city_X = Some (MultiPolygon [(10, False), (50, False), (2, False)])"
  "geometry_proj city_X =
     Some (MultiPolygon [(10000000, False), (50000000, False), (2000000, False)])"
  by (simp_all add: city_X_def)

lemma largest_three_five_two: "largest_connected_component three_five_two = Inr five_cycle"
  by code_simp

lemma largest_one_node: "largest_connected_component one_node = Inr one_node"
  by code_simp

lemma example_env_fields:
  "area example_env (MultiPolygon [(10000000, False), (50000000, False), (2000000, False)])
     / 1000000 = 62"
  "get_city_polygon example_env (MultiPolygon [(10, False), (50, False), (2, False)])
     simplify_tolerance = Inr (Polygon (50, True))"
  "graph_from_polygon example_env g network_type = Inr three_five_two"
  "to_undirected example_env G = G"
  "save_graphml example_env G p = Saved"
  by (simp_all add: example_env_def get_city_polygon_def py_max_def simplify_tolerance_def)

lemma timeout_env_fields:
  "area timeout_env (MultiPolygon [(10000000, False), (50000000, False), (2000000, False)])
     / 1000000 = 62"
  "get_city_polygon timeout_env (MultiPolygon [(10, False), (50, False), (2, False)])
     simplify_tolerance = Inr (Polygon (50, True))"
  "graph_from_polygon timeout_env g network_type = Inl (LibraryError ''Connection timed out'')"
  by (simp_all add: timeout_env_def example_env_def get_city_polygon_def py_max_def
      simplify_tolerance_def)

lemma disk_full_env_fields:
  "area disk_full_env (MultiPolygon [(10000000, False), (50000000, False), (2000000, False)])
     / 1000000 = 62"
  "get_city_polygon disk_full_env (MultiPolygon [(10, False), (50, False), (2, False)])
     simplify_tolerance = Inr (Polygon (50, True))"
  "graph_from_polygon disk_full_env g network_type = Inr three_five_two"
  "to_undirected disk_full_env G = G"
  "save_graphml disk_full_env G p = SaveFailed (LibraryError ''No space left on device'') True"
  by (simp_all add: disk_full_env_def example_env_def get_city_polygon_def py_max_def
      simplify_tolerance_def)

lemma isolated_env_fields:
  "area isolated_env (MultiPolygon [(10000000, False), (50000000, False), (2000000, False)])
     / 1000000 = 62"
  "get_city_polygon isolated_env (MultiPolygon [(10, False), (50, False), (2, False)])
     simplify_tolerance = Inr (Polygon (50, True))"
  "graph_from_polygon isolated_env g network_type = Inr one_node"
  "to_undirected isolated_env G = G"
  "save_graphml isolated_env G p = Saved"
  by (simp_all add: isolated_env_def example_env_def get_city_polygon_def py_max_def
      simplify_tolerance_def)

lemma download_reduce_save_example:
  "download_reduce_save example_env city_X ''X'' p w =
     (Inr five_cycle,
      w\<lparr>trace := trace w @ [GraphFromPolygon ''X''], files := (files w)(p \<mapsto> Some five_cycle)\<rparr>)"
  by (simp add: download_reduce_save_def geometry_city_X example_env_fields
      largest_three_five_two Let_def)

lemma download_reduce_save_timeout:
  "download_reduce_save timeout_env city_X ''X'' p w =
     (Inl (LibraryError ''Connection timed out''), w\<lparr>trace := trace w @ [GraphFromPolygon ''X'']\<rparr>)"
  by (simp add: download_reduce_save_def geometry_city_X timeout_env_fields Let_def)

lemma download_reduce_save_disk_full:
  "download_reduce_save disk_full_env city_X ''X'' p w =
     (Inl (LibraryError ''No space left on device''),
      w\<lparr>trace := trace w @ [GraphFromPolygon ''X''], files := (files w)(p \<mapsto> None)\<rparr>)"
  by (simp add: download_reduce_save_def geometry_city_X disk_full_env_fields
      largest_three_five_two Let_def)

lemma download_reduce_save_isolated:
  "download_reduce_save isolated_env city_X ''X'' p w =
     (Inr one_node,
      w\<lparr>trace := trace w @ [GraphFromPolygon ''X''], files := (files w)(p \<mapsto> Some one_node)\<rparr>)"
  by (simp add: download_reduce_save_def geometry_city_X isolated_env_fields
      largest_one_node Let_def)

lemma fresh_world_fields:
  "files fresh_world = Map.empty" "csv fresh_world = None" "trace fresh_world = []"
  "csv_lines fresh_world = []"
  by (simp_all add: fresh_world_def csv_lines_def)

lemma index_of_header:
  "index_of (S ''status'') (map S header) = Some 1"
  "index_of (S ''city'') (map S header) = Some 0"
  by (simp_all add: header_def)

lemma downloaded_cities_fresh: "downloaded_cities (csv fresh_world) = Inr {}"
  by (simp add: downloaded_cities_def fresh_world_def)

lemma downloaded_cities_header:
  "downloaded_cities (Some (map S header # rows)) =
     Inr (set (map (\<lambda>r. cell r 0) (filter (\<lambda>r. cell r 1 = S ''success'') rows)))"
  by (simp add: downloaded_cities_def index_of_header del: set_filter set_map)

lemma downloaded_cities_logged: "downloaded_cities (csv world_logged) = Inr {S ''X''}"
proof -
  have "map (\<lambda>r. cell r 0) (filter (\<lambda>r. cell r 1 = S ''success'')
      [[S ''X'', S ''success'', N 5, N 5, F 62]]) = [S ''X'']"
    by (simp add: cell_def)
  then show ?thesis
    by (simp add: world_logged_def downloaded_cities_header del: set_filter set_map)
qed

lemma downloaded_cities_failed: "downloaded_cities (csv world_failed) = Inr {}"
proof -
  have "map (\<lambda>r. cell r 0) (filter (\<lambda>r. cell r 1 = S ''success'')
      [[S ''X'', S ''failed: Connection timed out'', Empty, Empty, F 62]]) = []"
    by (simp add: cell_def)
  then show ?thesis
    by (simp add: world_failed_def downloaded_cities_header del: set_filter set_map)
qed

lemma city_iteration_example:
  assumes "\<not> skipped D w ''X''"
  shows "city_iteration env D city_X w =
    (case download_reduce_save env city_X ''X'' (save_path_of ''X'') w of
       (res, w1) \<Rightarrow>
         (None, sleep 3 (append_record
           (case res of
              Inr G_main \<Rightarrow> success_record ''X'' G_main
                (area env (MultiPolygon [(10000000, False), (50000000, False), (2000000, False)])
                  / 1000000)
            | Inl e \<Rightarrow> failure_record ''X'' e
                (area env (MultiPolygon [(10000000, False), (50000000, False), (2000000, False)])
                  / 1000000)) w1)))"
  using assms
  by (simp add: city_iteration_def row_name_city_X geometry_city_X skipped_def Let_def
      split: prod.splits)

lemma not_skipped_fresh: "\<not> skipped {} fresh_world ''X''"
  by (simp add: skipped_def fresh_world_def)

lemma city_iteration_timeout:
  assumes "\<not> skipped D w ''X''"
  shows "city_iteration timeout_env D city_X w =
    (None, w\<lparr>trace := trace w @ [GraphFromPolygon ''X'', Sleep 3],
             csv := Some (csv_lines w @ (if csv_lines w = [] then [map S header] else []) @
               [[S ''X'', S ''failed: Connection timed out'', Empty, Empty, F 62]])\<rparr>)"
  by (simp add: city_iteration_example [OF assms] download_reduce_save_timeout
      timeout_env_fields sleep_def append_record_def writerow_failure csv_lines_def Let_def)

lemma city_iteration_disk_full:
  assumes "\<not> skipped D w ''X''"
  shows "city_iteration disk_full_env D city_X w =
    (None, w\<lparr>trace := trace w @ [GraphFromPolygon ''X'', Sleep 3],
             files := (files w)(save_path_of ''X'' \<mapsto> None),
             csv := Some (csv_lines w @ (if csv_lines w = [] then [map S header] else []) @
               [[S ''X'', S ''failed: No space left on device'', Empty, Empty, F 62]])\<rparr>)"
  by (simp add: city_iteration_example [OF assms] download_reduce_save_disk_full
      disk_full_env_fields sleep_def append_record_def writerow_failure csv_lines_def Let_def)

lemma city_iteration_success:
  assumes "\<not> skipped D w ''X''"
  shows "city_iteration example_env D city_X w =
    (None, w\<lparr>trace := trace w @ [GraphFromPolygon ''X'', Sleep 3],
             files := (files w)(save_path_of ''X'' \<mapsto> Some five_cycle),
             csv := Some (csv_lines w @ (if csv_lines w = [] then [map S header] else []) @
               [[S ''X'', S ''success'', N 5, N 5, F 62]])\<rparr>)"
  by (simp add: city_iteration_example [OF assms] download_reduce_save_example
      example_env_fields sleep_def append_record_def writerow_success csv_lines_def Let_def
      five_cycle_def)

lemma city_iteration_isolated:
  assumes "\<not> skipped D w ''X''"
  shows "city_iteration isolated_env D city_X w =
    (None, w\<lparr>trace := trace w @ [GraphFromPolygon ''X'', Sleep 3],
             files := (files w)(save_path_of ''X'' \<mapsto> Some one_node),
             csv := Some (csv_lines w @ (if csv_lines w = [] then [map S header] else []) @
               [[S ''X'', S ''success'', N 1, N 0, F 62]])\<rparr>)"
  by (simp add: city_iteration_example [OF assms] download_reduce_save_isolated
      isolated_env_fields sleep_def append_record_def writerow_success csv_lines_def Let_def
      one_node_def)

lemma script_fresh:
  "script env china_cities fresh_world = run_cities env {} china_cities fresh_world"
  by (simp add: script_def downloaded_cities_fresh)

lemma skipped_with_file: "skipped {} world_with_file ''X''"
  by (simp add: skipped_def world_with_file_def)

lemma script_with_file: "script example_env [city_X] world_with_file = (None, world_with_file)"
proof -
  have "downloaded_cities (csv world_with_file) = Inr {}"
    by (simp add: world_with_file_def downloaded_cities_def fresh_world_def)
  moreover have "save_path_of ''X'' \<in> dom (files world_with_file)"
    by (simp add: world_with_file_def)
  ultimately show ?thesis
    by (simp add: script_def city_iteration_skip [OF row_name_city_X])
qed

lemma script_logged: "script example_env [city_X] world_logged = (None, world_logged)"
  by (simp add: script_def downloaded_cities_logged city_iteration_skip [OF row_name_city_X])

section \<open>The claims\<close>

text \<open>
  C2. For every undirected graph with at least one node,
  \<^verbatim>\<open>largest_connected_component\<close> returns the induced subgraph, as a graph of its
  own (a copy, not the view \<^verbatim>\<open>G.subgraph\<close> gives), of a connected component that
  no other connected component exceeds in its number of nodes: its nodes are exactly the
  component, its edges exactly the edges of the graph with both end points in it. On the
  graph with components of 3, 5 and 2 nodes the result is the 5-node cycle.
\<close>

theorem largest_connected_component_induced:
  assumes "wf_graph G" and "nodes G \<noteq> []"
  shows "\<exists>c. largest_connected_component G = Inr (copy (subgraph G c)) \<and>
    is_connected_component G c \<and>
    (\<forall>c'. is_connected_component G c' \<longrightarrow> card c' \<le> card c) \<and>
    set (nodes (copy (subgraph G c))) = c \<and>
    edges (copy (subgraph G c)) = filter (\<lambda>(u, v). u \<in> c \<and> v \<in> c) (edges G)"
proof -
  have "connected_components G \<noteq> []"
    using assms(2) by (simp add: connected_components_empty_iff)
  then obtain c where c: "py_max card (connected_components G) = Inr c"
    using py_max_nonempty by blast
  have mem: "c \<in> set (connected_components G)"
    and mx: "\<forall>z\<in>set (connected_components G). card z \<le> card c"
    using py_max_Inr [OF c] by blast+
  have comp: "is_connected_component G c"
    using connected_components_are_components [OF assms(1) mem] .
  have "c \<subseteq> set (nodes G)"
    using comp by (simp add: is_connected_component_def)
  then have n: "set (nodes (copy (subgraph G c))) = c"
    by (auto simp: copy_def subgraph_def)
  have e: "edges (copy (subgraph G c)) = filter (\<lambda>(u, v). u \<in> c \<and> v \<in> c) (edges G)"
    by (simp add: copy_def subgraph_def)
  have l: "largest_connected_component G = Inr (copy (subgraph G c))"
    using c by (simp add: largest_connected_component_def)
  have m: "\<forall>c'. is_connected_component G c' \<longrightarrow> card c' \<le> card c"
    using mx component_listed [OF assms(1)] by blast
  show ?thesis
    using l comp m n e by (intro exI [of _ c] conjI)
qed

theorem largest_connected_component_induced_witness:
  "wf_graph three_five_two \<and> nodes three_five_two \<noteq> [] \<and>
   map card (connected_components three_five_two) = [3, 5, 2] \<and>
   largest_connected_component three_five_two =
     Inr \<lparr> nodes = [4, 5, 6, 7, 8], edges = [(4, 5), (5, 6), (6, 7), (7, 8), (8, 4)] \<rparr> \<and>
   (\<exists>c. largest_connected_component three_five_two = Inr (copy (subgraph three_five_two c)) \<and>
     is_connected_component three_five_two c \<and>
     (\<forall>c'. is_connected_component three_five_two c' \<longrightarrow> card c' \<le> card c) \<and>
     set (nodes (copy (subgraph three_five_two c))) = c \<and>
     edges (copy (subgraph three_five_two c)) =
       filter (\<lambda>(u, v). u \<in> c \<and> v \<in> c) (edges three_five_two))"
proof -
  have wf: "wf_graph three_five_two"
    by code_simp
  have ne: "nodes three_five_two \<noteq> []"
    by (simp add: three_five_two_def)
  have sizes: "map card (connected_components three_five_two) = [3, 5, 2]"
    by code_simp
  have val: "largest_connected_component three_five_two =
      Inr \<lparr> nodes = [4, 5, 6, 7, 8], edges = [(4, 5), (5, 6), (6, 7), (7, 8), (8, 4)] \<rparr>"
    by code_simp
  show ?thesis
    using wf ne sizes val largest_connected_component_induced [OF wf ne] by (intro conjI)
qed

text \<open>
  C9. \<^verbatim>\<open>largest_connected_component\<close> is partial at the empty graph: without
  nodes the list of connected components is empty and \<^verbatim>\<open>max\<close> raises
  \<^verbatim>\<open>ValueError\<close>; with at least one node the function returns a graph. (The text
  of the exception is the one of Python up to 3.11.)
\<close>

theorem largest_connected_component_partial:
  "(nodes G = [] \<longrightarrow>
      connected_components G = [] \<and>
      largest_connected_component G = Inl (ValueError ''max() arg is an empty sequence'')) \<and>
   (nodes G \<noteq> [] \<longrightarrow> (\<exists>H. largest_connected_component G = Inr H))"
proof (intro conjI impI)
  assume "nodes G = []"
  then show "connected_components G = []"
    by (simp add: connected_components_empty_iff)
next
  assume "nodes G = []"
  then have "connected_components G = []"
    by (simp add: connected_components_empty_iff)
  then show "largest_connected_component G = Inl (ValueError ''max() arg is an empty sequence'')"
    by (simp add: largest_connected_component_def py_max_def)
next
  assume "nodes G \<noteq> []"
  then have "connected_components G \<noteq> []"
    by (simp add: connected_components_empty_iff)
  then obtain c where "py_max card (connected_components G) = Inr c"
    using py_max_nonempty by blast
  then show "\<exists>H. largest_connected_component G = Inr H"
    by (simp add: largest_connected_component_def)
qed

theorem largest_connected_component_partial_witness:
  "nodes empty_graph = [] \<and>
   connected_components empty_graph = [] \<and>
   largest_connected_component empty_graph = Inl (ValueError ''max() arg is an empty sequence'') \<and>
   nodes three_five_two \<noteq> [] \<and>
   (\<exists>H. largest_connected_component three_five_two = Inr H)"
proof -
  have e: "nodes empty_graph = []"
    by (simp add: empty_graph_def)
  have n: "nodes three_five_two \<noteq> []"
    by (simp add: three_five_two_def)
  show ?thesis
    using e n largest_connected_component_partial [of empty_graph]
      largest_connected_component_partial [of three_five_two]
    by simp
qed

text \<open>
  C1. A city whose name is in the set of downloaded cities the script builds at its start
  (the cities marked \<^verbatim>\<open>"success"\<close> in the log), or whose graph file exists at
  the start, is skipped by the whole run: no call to the map service is made for it, the
  log only grows and none of the lines added is a row of this city, and the file at its
  graph path is left as it was.
\<close>

theorem skipped_city_untouched:
  assumes "script env china_cities w = (r, w')"
    and "(\<exists>D. downloaded_cities (csv w) = Inr D \<and> S n \<in> D) \<or> save_path_of n \<in> dom (files w)"
  shows "(\<exists>evs. trace w' = trace w @ evs \<and> GraphFromPolygon n \<notin> set evs) \<and>
    (\<exists>new. csv_lines w' = csv_lines w @ new \<and> rows_of_city n new = []) \<and>
    files w' (save_path_of n) = files w (save_path_of n)"
proof (cases "downloaded_cities (csv w)")
  case (Inl e)
  then have "w' = w" using assms(1) by (simp add: script_def)
  then show ?thesis by (simp add: rows_of_city_def)
next
  case (Inr D)
  then have run: "run_cities env D china_cities w = (r, w')"
    using assms(1) by (simp add: script_def)
  have "skipped D w n"
    using assms(2) Inr by (auto simp: skipped_def)
  with run show ?thesis by (rule run_cities_skipped_city)
qed

theorem skipped_city_untouched_witness:
  "script example_env [city_X] world_logged = (None, world_logged) \<and>
   (\<exists>D. downloaded_cities (csv world_logged) = Inr D \<and> S ''X'' \<in> D) \<and>
   script example_env [city_X] world_with_file = (None, world_with_file) \<and>
   save_path_of ''X'' \<in> dom (files world_with_file) \<and>
   (\<exists>evs. trace world_logged = trace world_logged @ evs \<and> GraphFromPolygon ''X'' \<notin> set evs) \<and>
   (\<exists>new. csv_lines world_logged = csv_lines world_logged @ new \<and> rows_of_city ''X'' new = []) \<and>
   files world_logged (save_path_of ''X'') = files world_logged (save_path_of ''X'') \<and>
   (\<exists>evs. trace world_with_file = trace world_with_file @ evs \<and>
      GraphFromPolygon ''X'' \<notin> set evs) \<and>
   (\<exists>new. csv_lines world_with_file = csv_lines world_with_file @ new \<and>
      rows_of_city ''X'' new = [])"
proof -
  have d: "\<exists>D. downloaded_cities (csv world_logged) = Inr D \<and> S ''X'' \<in> D"
    by (simp add: downloaded_cities_logged)
  have f: "save_path_of ''X'' \<in> dom (files world_with_file)"
    by (simp add: world_with_file_def)
  have 1: "(\<exists>D. downloaded_cities (csv world_logged) = Inr D \<and> S ''X'' \<in> D) \<or>
      save_path_of ''X'' \<in> dom (files world_logged)"
    using d by blast
  have 2: "(\<exists>D. downloaded_cities (csv world_with_file) = Inr D \<and> S ''X'' \<in> D) \<or>
      save_path_of ''X'' \<in> dom (files world_with_file)"
    using f by blast
  show ?thesis
    using script_logged script_with_file d f
      skipped_city_untouched [OF script_logged 1]
      skipped_city_untouched [OF script_with_file 2]
    by (intro conjI) blast+
qed

text \<open>
  C3 (amended). When the body of the \<^verbatim>\<open>try\<close> raises for a city, the exception is
  caught: the iteration ends normally and the loop goes on with the next city; exactly
  one row is appended, with the status \<^verbatim>\<open>failed: \<close> followed by the text of the
  exception, empty node and edge cells and the area (after the header when the log was
  empty). No graph file is created, unless it is the save call that raised and left a
  file at the path: the script does not remove it.
\<close>

theorem failed_city_recorded:
  assumes "row_name row = Inr n" and "\<not> skipped D w n" and "geometry_proj row = Some gp"
    and "download_reduce_save env row n (save_path_of n) w = (Inl e, w1)"
  shows "\<exists>w'. city_iteration env D row w = (None, w') \<and>
    csv_lines w' =
      csv_lines w @ (if csv_lines w = [] then [map S header] else []) @
      [[S n, S (''failed: '' @ str_exception e), Empty, Empty, F (area env gp / 1000000)]] \<and>
    (files w' = files w \<or>
     (\<exists>G_main. save_graphml env G_main (save_path_of n) = SaveFailed e True \<and>
        files w' = (files w)(save_path_of n \<mapsto> None))) \<and>
    run_cities env D (row # rows) w = run_cities env D rows w'"
proof -
  let ?w' = "sleep 3 (append_record (failure_record n e (area env gp / 1000000)) w1)"
  have it: "city_iteration env D row w = (None, ?w')"
    using city_iteration_processed [OF assms(1) _ _ assms(3,4), of D] assms(2)
    by (simp add: skipped_def)
  have "csv_lines w1 = csv_lines w"
    using download_reduce_save_csv [OF assms(4)] by (simp add: csv_lines_def)
  then have c: "csv_lines ?w' =
      csv_lines w @ (if csv_lines w = [] then [map S header] else []) @
      [[S n, S (''failed: '' @ str_exception e), Empty, Empty, F (area env gp / 1000000)]]"
    by (simp add: csv_lines_append_record writerow_failure)
  have f: "files ?w' = files w \<or>
     (\<exists>G_main. save_graphml env G_main (save_path_of n) = SaveFailed e True \<and>
        files ?w' = (files w)(save_path_of n \<mapsto> None))"
    using download_reduce_save_files_Inl [OF assms(4)] by simp
  have r: "run_cities env D (row # rows) w = run_cities env D rows ?w'"
    by (simp add: it)
  show ?thesis
    using it c f r by (intro exI [of _ ?w'] conjI)
qed

theorem failed_city_recorded_witness:
  "row_name city_X = Inr ''X'' \<and> \<not> skipped {} fresh_world ''X'' \<and>
   geometry_proj city_X =
     Some (MultiPolygon [(10000000, False), (50000000, False), (2000000, False)]) \<and>
   download_reduce_save timeout_env city_X ''X'' (save_path_of ''X'') fresh_world =
     (Inl (LibraryError ''Connection timed out''),
      fresh_world\<lparr>trace := trace fresh_world @ [GraphFromPolygon ''X'']\<rparr>) \<and>
   (\<exists>w'. city_iteration timeout_env {} city_X fresh_world = (None, w') \<and>
      csv_lines w' =
        [map S header, [S ''X'', S ''failed: Connection timed out'', Empty, Empty, F 62]] \<and>
      files w' = files fresh_world \<and>
      run_cities timeout_env {} [city_X, city_X] fresh_world =
        run_cities timeout_env {} [city_X] w')"
proof -
  note inst = failed_city_recorded [OF row_name_city_X not_skipped_fresh geometry_city_X(2)
      download_reduce_save_timeout, of "[city_X]"]
  then obtain w' where w': "city_iteration timeout_env {} city_X fresh_world = (None, w')"
    "csv_lines w' =
      csv_lines fresh_world @ (if csv_lines fresh_world = [] then [map S header] else []) @
      [[S ''X'', S (''failed: '' @ str_exception (LibraryError ''Connection timed out'')),
        Empty, Empty,
        F (area timeout_env
            (MultiPolygon [(10000000, False), (50000000, False), (2000000, False)]) / 1000000)]]"
    "run_cities timeout_env {} (city_X # [city_X]) fresh_world =
       run_cities timeout_env {} [city_X] w'"
    by blast
  have f: "files w' = files fresh_world"
    using w'(1) by (auto simp: city_iteration_timeout [OF not_skipped_fresh])
  have c: "csv_lines w' =
      [map S header, [S ''X'', S ''failed: Connection timed out'', Empty, Empty, F 62]]"
    using w'(2) by (simp add: fresh_world_fields timeout_env_fields)
  show ?thesis
    using row_name_city_X not_skipped_fresh geometry_city_X(2) download_reduce_save_timeout
      w'(1,3) f c
    by (intro conjI exI [of _ w']) simp_all
qed

text \<open>
  C3, as stated, fails when saving raises after the file was opened: the city is
  recorded as failed and a file exists at its graph path.
\<close>

theorem failed_save_leaves_file:
  "fst (download_reduce_save disk_full_env city_X ''X'' (save_path_of ''X'') fresh_world) =
     Inl (LibraryError ''No space left on device'') \<and>
   files fresh_world (save_path_of ''X'') = None \<and>
   csv_lines (snd (script disk_full_env [city_X] fresh_world)) =
     [map S header, [S ''X'', S ''failed: No space left on device'', Empty, Empty, F 62]] \<and>
   save_path_of ''X'' \<in> dom (files (snd (script disk_full_env [city_X] fresh_world)))"
  by (simp add: script_fresh run_cities_single city_iteration_disk_full [OF not_skipped_fresh]
      download_reduce_save_disk_full fresh_world_fields csv_lines_def)

text \<open>
  C6 (amended). When the body of the \<^verbatim>\<open>try\<close> completes for a city, exactly one
  row is appended, with the status \<^verbatim>\<open>success\<close>, the numbers of nodes and of edges
  of the saved largest connected component and the area; the number of nodes is positive
  (the number of edges may be zero); the graph file holds that component; the header
  line is \<^verbatim>\<open>city,status,nodes,edges,area_km2\<close> and is written only when the log is
  empty.
\<close>

theorem successful_city_recorded:
  assumes "row_name row = Inr n" and "\<not> skipped D w n" and "geometry_proj row = Some gp"
    and "download_reduce_save env row n (save_path_of n) w = (Inr G_main, w1)"
  shows "\<exists>w'. city_iteration env D row w = (None, w') \<and>
    csv_lines w' =
      csv_lines w @ (if csv_lines w = [] then [map S header] else []) @
      [[S n, S ''success'', N (length (nodes G_main)), N (length (edges G_main)),
        F (area env gp / 1000000)]] \<and>
    0 < length (nodes G_main) \<and>
    files w' (save_path_of n) = Some (Some G_main) \<and>
    map S header = [S ''city'', S ''status'', S ''nodes'', S ''edges'', S ''area_km2'']"
proof -
  let ?w' = "sleep 3 (append_record (success_record n G_main (area env gp / 1000000)) w1)"
  have it: "city_iteration env D row w = (None, ?w')"
    using city_iteration_processed [OF assms(1) _ _ assms(3,4), of D] assms(2)
    by (simp add: skipped_def)
  have "csv_lines w1 = csv_lines w"
    using download_reduce_save_csv [OF assms(4)] by (simp add: csv_lines_def)
  then have c: "csv_lines ?w' =
      csv_lines w @ (if csv_lines w = [] then [map S header] else []) @
      [[S n, S ''success'', N (length (nodes G_main)), N (length (edges G_main)),
        F (area env gp / 1000000)]]"
    by (simp add: csv_lines_append_record writerow_success)
  note drs = download_reduce_save_files_Inr [OF assms(4)]
  have f: "files ?w' (save_path_of n) = Some (Some G_main)"
    using drs by simp
  obtain G where "largest_connected_component (to_undirected env G) = Inr G_main"
    using drs by blast
  then have p: "0 < length (nodes G_main)"
    using largest_connected_component_nonempty by blast
  have h: "map S header = [S ''city'', S ''status'', S ''nodes'', S ''edges'', S ''area_km2'']"
    by (simp add: header_def)
  show ?thesis
    using it c p f h by (intro exI [of _ ?w'] conjI)
qed

theorem successful_city_recorded_witness:
  "row_name city_X = Inr ''X'' \<and> \<not> skipped {} fresh_world ''X'' \<and>
   geometry_proj city_X =
     Some (MultiPolygon [(10000000, False), (50000000, False), (2000000, False)]) \<and>
   fst (download_reduce_save example_env city_X ''X'' (save_path_of ''X'') fresh_world) =
     Inr five_cycle \<and>
   (\<exists>w'. city_iteration example_env {} city_X fresh_world = (None, w') \<and>
      csv_lines w' = [map S header, [S ''X'', S ''success'', N 5, N 5, F 62]] \<and>
      0 < length (nodes five_cycle) \<and>
      files w' (save_path_of ''X'') = Some (Some five_cycle))"
proof -
  note inst = successful_city_recorded [OF row_name_city_X not_skipped_fresh geometry_city_X(2)
      download_reduce_save_example]
  then obtain w' where w': "city_iteration example_env {} city_X fresh_world = (None, w')"
    "csv_lines w' =
      csv_lines fresh_world @ (if csv_lines fresh_world = [] then [map S header] else []) @
      [[S ''X'', S ''success'', N (length (nodes five_cycle)), N (length (edges five_cycle)),
        F (area example_env
            (MultiPolygon [(10000000, False), (50000000, False), (2000000, False)]) / 1000000)]]"
    "0 < length (nodes five_cycle)"
    "files w' (save_path_of ''X'') = Some (Some five_cycle)"
    by blast
  have c: "csv_lines w' = [map S header, [S ''X'', S ''success'', N 5, N 5, F 62]]"
    using w'(2) by (simp add: fresh_world_fields example_env_fields five_cycle_def)
  show ?thesis
    using row_name_city_X not_skipped_fresh geometry_city_X(2) w'(1,3,4) c
    by (intro conjI exI [of _ w']) (simp_all add: download_reduce_save_example)
qed

text \<open>
  C6, as stated, fails for the number of edges: when the largest component is a single
  node without edges the city is a success with 1 node and 0 edges.
\<close>

theorem isolated_node_zero_edges:
  "fst (download_reduce_save isolated_env city_X ''X'' (save_path_of ''X'') fresh_world) =
     Inr one_node \<and>
   script isolated_env [city_X] fresh_world =
     (None,
      \<lparr> files = [save_path_of ''X'' \<mapsto> Some one_node],
        csv = Some [map S header, [S ''X'', S ''success'', N 1, N 0, F 62]],
        trace = [GraphFromPolygon ''X'', Sleep 3] \<rparr>)"
  by (simp add: script_fresh run_cities_single city_iteration_isolated [OF not_skipped_fresh]
      download_reduce_save_isolated fresh_world_fields)

text \<open>
  C8 (amended). An iteration that processes a city, whether it ends in a success record
  or in a failure record, ends with one call \<^verbatim>\<open>time.sleep(3)\<close>, its last action;
  an iteration that skips a city makes no call at all, \<^verbatim>\<open>time.sleep\<close> included.
\<close>

theorem sleep_after_processed_city:
  assumes "row_name row = Inr n" and "city_iteration env D row w = (None, w')"
  shows "if skipped D w n then trace w' = trace w
    else (\<exists>evs. trace w' = trace w @ evs @ [Sleep 3] \<and> Sleep 3 \<notin> set evs)"
proof (cases "skipped D w n")
  case True
  then have "city_iteration env D row w = (None, w)"
    using city_iteration_skip [OF assms(1), of D w env] by (simp add: skipped_def)
  then show ?thesis using assms(2) True by simp
next
  case False
  then have ns: "S n \<notin> D" "save_path_of n \<notin> dom (files w)"
    by (simp_all add: skipped_def)
  obtain gp where gp: "geometry_proj row = Some gp"
    using assms ns by (cases "geometry_proj row") (auto simp: city_iteration_def Let_def)
  obtain res w1 where drs: "download_reduce_save env row n (save_path_of n) w = (res, w1)"
    by (cases "download_reduce_save env row n (save_path_of n) w")
  have w': "w' = sleep 3 (append_record
      (case res of Inr G_main \<Rightarrow> success_record n G_main (area env gp / 1000000)
                 | Inl e \<Rightarrow> failure_record n e (area env gp / 1000000)) w1)"
    using city_iteration_processed [OF assms(1) ns gp drs] assms(2) by simp
  have "trace w1 = trace w \<or> trace w1 = trace w @ [GraphFromPolygon n]"
    using download_reduce_save_trace [OF drs] .
  then have "\<exists>evs. trace w' = trace w @ evs @ [Sleep 3] \<and> Sleep 3 \<notin> set evs"
    by (auto simp: w')
  then show ?thesis using False by simp
qed

theorem sleep_after_processed_city_witness:
  "row_name city_X = Inr ''X'' \<and>
   city_iteration example_env {} city_X world_with_file = (None, world_with_file) \<and>
   skipped {} world_with_file ''X'' \<and>
   trace world_with_file = trace world_with_file \<and>
   city_iteration timeout_env {} city_X fresh_world =
     (None, fresh_world\<lparr>trace := [GraphFromPolygon ''X'', Sleep 3],
        csv := Some [map S header,
          [S ''X'', S ''failed: Connection timed out'', Empty, Empty, F 62]]\<rparr>) \<and>
   \<not> skipped {} fresh_world ''X'' \<and>
   (\<exists>evs. [GraphFromPolygon ''X'', Sleep 3] = trace fresh_world @ evs @ [Sleep 3] \<and>
      Sleep 3 \<notin> set evs)"
proof -
  have 1: "city_iteration example_env {} city_X world_with_file = (None, world_with_file)"
    using city_iteration_skip [OF row_name_city_X, of "{}" world_with_file example_env]
      skipped_with_file by (simp add: skipped_def)
  have 2: "city_iteration timeout_env {} city_X fresh_world =
     (None, fresh_world\<lparr>trace := [GraphFromPolygon ''X'', Sleep 3],
        csv := Some [map S header,
          [S ''X'', S ''failed: Connection timed out'', Empty, Empty, F 62]]\<rparr>)"
    by (simp add: city_iteration_timeout [OF not_skipped_fresh] fresh_world_fields)
  show ?thesis
    using row_name_city_X 1 2 skipped_with_file not_skipped_fresh
      sleep_after_processed_city [OF row_name_city_X 1]
      sleep_after_processed_city [OF row_name_city_X 2]
    by (simp add: fresh_world_fields)
qed

text \<open>
  C8, as stated, fails for a skipped city: \<^verbatim>\<open>continue\<close> leaves the loop body
  before the sleep.
\<close>

theorem skipped_city_no_sleep:
  "skipped {} world_with_file ''X'' \<and>
   script example_env [city_X] world_with_file = (None, world_with_file) \<and>
   trace world_with_file = [] \<and>
   Sleep 3 \<notin> set (trace (snd (script example_env [city_X] world_with_file)))"
  by (simp add: skipped_with_file script_with_file) (simp add: world_with_file_def fresh_world_def)

text \<open>
  C10. Every line a run appends to the log is the header line or the row of a city of the
  boundary table: five cells, the first the name of the city, the last the area of its
  reprojected geometry divided by \<open>10\<^sup>6\<close>, for failed cities as for successful ones
  (the area is computed before the \<^verbatim>\<open>try\<close>).
\<close>

theorem every_row_carries_area:
  assumes "script env china_cities w = (r, w')"
  shows "\<exists>new. csv_lines w' = csv_lines w @ new \<and>
    (\<forall>l\<in>set new. l = map S header \<or>
      (\<exists>row\<in>set china_cities. \<exists>n gp.
         row_name row = Inr n \<and> geometry_proj row = Some gp \<and> length l = 5 \<and>
         cell l 0 = S n \<and> cell l 4 = F (area env gp / 1000000)))"
proof -
  have run: "run_cities env D rows w = (r, w') \<Longrightarrow>
    \<exists>new. csv_lines w' = csv_lines w @ new \<and>
      (\<forall>l\<in>set new. l = map S header \<or>
        (\<exists>row\<in>set rows. \<exists>n gp.
           row_name row = Inr n \<and> geometry_proj row = Some gp \<and> length l = 5 \<and>
           cell l 0 = S n \<and> cell l 4 = F (area env gp / 1000000)))" for D rows w
  proof (induction rows arbitrary: w)
    case Nil
    then show ?case by simp
  next
    case (Cons row rows)
    obtain r1 w1 where it: "city_iteration env D row w = (r1, w1)"
      by (cases "city_iteration env D row w")
    obtain new1 where 1: "csv_lines w1 = csv_lines w @ new1"
      "\<forall>l\<in>set new1. l = map S header \<or>
        (\<exists>n gp. row_name row = Inr n \<and> geometry_proj row = Some gp \<and> length l = 5 \<and>
           cell l 0 = S n \<and> cell l 4 = F (area env gp / 1000000))"
      using iteration_rows [OF it] by blast
    show ?case
    proof (cases r1)
      case (Some e)
      then have "w' = w1" using Cons.prems it by simp
      then show ?thesis using 1 by auto
    next
      case None
      then have "run_cities env D rows w1 = (r, w')"
        using Cons.prems it by simp
      then obtain new2 where 2: "csv_lines w' = csv_lines w1 @ new2"
        "\<forall>l\<in>set new2. l = map S header \<or>
          (\<exists>row\<in>set rows. \<exists>n gp.
             row_name row = Inr n \<and> geometry_proj row = Some gp \<and> length l = 5 \<and>
             cell l 0 = S n \<and> cell l 4 = F (area env gp / 1000000))"
        using Cons.IH by blast
      have "csv_lines w' = csv_lines w @ (new1 @ new2)"
        using 1(1) 2(1) by simp
      moreover have "\<forall>l\<in>set (new1 @ new2). l = map S header \<or>
          (\<exists>row\<in>set (row # rows). \<exists>n gp.
             row_name row = Inr n \<and> geometry_proj row = Some gp \<and> length l = 5 \<and>
             cell l 0 = S n \<and> cell l 4 = F (area env gp / 1000000))"
        using 1(2) 2(2) by auto
      ultimately show ?thesis by blast
    qed
  qed
  show ?thesis
  proof (cases "downloaded_cities (csv w)")
    case (Inl e)
    then have "w' = w" using assms by (simp add: script_def)
    then show ?thesis by simp
  next
    case (Inr D)
    then have "run_cities env D china_cities w = (r, w')"
      using assms by (simp add: script_def)
    then show ?thesis by (rule run)
  qed
qed

end
